theory Spec2Isabelle
  imports Complex_Main
begin

section \<open>Data model of \<open>sketch.tsx\<close>\<close>

text \<open>
  A \<open>Point\<close> is a pair of JavaScript numbers. The code only stores coordinates and hands
  them to the canvas, it never computes with them after \<open>getPointFromEvent\<close>, so every
  handler below takes the point that \<open>getPointFromEvent\<close> returned for its event.
\<close>

record Point =
  point_x :: real
  point_y :: real

datatype tool = Pen | Eraser

record DrawingPath =
  points :: "Point list"
  color :: string
  width :: int
  tool :: tool

text \<open>
  The \<open>useState\<close> cells of the \<open>SketchApp\<close> component, in the order of their
  declaration. A stack is a list whose top is its last element, as in the code
  (\<open>[...prev, paths]\<close> pushes, \<open>prev.slice(0, -1)\<close> pops).
\<close>

record SketchApp =
  isDrawing :: bool
  currentPath :: "Point list"
  paths :: "DrawingPath list"
  undoStack :: "DrawingPath list list"
  redoStack :: "DrawingPath list list"
  currentColor :: string
  brushSize :: int
  currentTool :: tool

definition initialState :: SketchApp where
  "initialState =
     \<lparr>isDrawing = False, currentPath = [], paths = [], undoStack = [], redoStack = [],
      currentColor = ''#000000'', brushSize = 3, currentTool = Pen\<rparr>"

section \<open>Event handlers\<close>

text \<open>
  Each handler is a function from the state its closure was rendered with to the state
  after all of its \<open>set...\<close> calls have been applied; React renders between two
  discrete events, so every handler sees the state its predecessor left.
\<close>

definition startDrawing :: "Point \<Rightarrow> SketchApp \<Rightarrow> SketchApp" where
  "startDrawing point s = s\<lparr>isDrawing := True, currentPath := [point]\<rparr>"

definition draw :: "Point \<Rightarrow> SketchApp \<Rightarrow> SketchApp" where
  "draw point s =
     (if \<not> isDrawing s then s
      else s\<lparr>currentPath := currentPath s @ [point]\<rparr>)"

definition stopDrawing :: "SketchApp \<Rightarrow> SketchApp" where
  "stopDrawing s =
     (if \<not> isDrawing s \<or> length (currentPath s) = 0 then s
      else
        let newPath =
              \<lparr>points = currentPath s,
               color = (if currentTool s = Eraser then ''#000000'' else currentColor s),
               width = brushSize s,
               tool = currentTool s\<rparr>
        in s\<lparr>undoStack := undoStack s @ [paths s],
             redoStack := [],
             paths := paths s @ [newPath],
             currentPath := [],
             isDrawing := False\<rparr>)"

definition clearCanvas :: "SketchApp \<Rightarrow> SketchApp" where
  "clearCanvas s =
     s\<lparr>undoStack := undoStack s @ [paths s],
       redoStack := [],
       paths := [],
       currentPath := []\<rparr>"

definition undo :: "SketchApp \<Rightarrow> SketchApp" where
  "undo s =
     (if length (undoStack s) = 0 then s
      else
        let previousState = undoStack s ! (length (undoStack s) - 1)
        in s\<lparr>redoStack := redoStack s @ [paths s],
             paths := previousState,
             undoStack := take (length (undoStack s) - 1) (undoStack s)\<rparr>)"

definition redo :: "SketchApp \<Rightarrow> SketchApp" where
  "redo s =
     (if length (redoStack s) = 0 then s
      else
        let nextState = redoStack s ! (length (redoStack s) - 1)
        in s\<lparr>undoStack := undoStack s @ [paths s],
             paths := nextState,
             redoStack := take (length (redoStack s) - 1) (redoStack s)\<rparr>)"

definition adjustBrushSize :: "int \<Rightarrow> SketchApp \<Rightarrow> SketchApp" where
  "adjustBrushSize delta s = s\<lparr>brushSize := max 1 (min 50 (brushSize s + delta))\<rparr>"

definition setCurrentTool :: "tool \<Rightarrow> SketchApp \<Rightarrow> SketchApp" where
  "setCurrentTool t s = s\<lparr>currentTool := t\<rparr>"

definition setCurrentColor :: "string \<Rightarrow> SketchApp \<Rightarrow> SketchApp" where
  "setCurrentColor c s = s\<lparr>currentColor := c\<rparr>"

section \<open>The canvas\<close>

text \<open>
  The 2D context of a canvas, as far as the component uses it: the drawing state that
  \<open>drawPath\<close> assigns, the current path (a list of subpaths) and the painting
  operations the canvas has received so far, oldest first. The program assigns only
  two compositing modes.
\<close>

datatype composite = SourceOver | DestinationOut

type_synonym pixel = "int \<times> int"

text \<open>The content of a pixel: \<open>None\<close> is transparent, \<open>Some c\<close> is opaque paint \<open>c\<close>.\<close>

type_synonym image = "pixel \<Rightarrow> string option"

datatype draw_op =
    ClearRect int int int int
  | FillRect composite string int int int int
  | StrokePath composite string int string string "Point list list"
  | DrawImage composite image int int

record canvas =
  canvas_width :: int
  canvas_height :: int
  strokeStyle :: string
  fillStyle :: string
  lineWidth :: int
  lineCap :: string
  lineJoin :: string
  globalCompositeOperation :: composite
  currentSubpaths :: "Point list list"
  painted :: "draw_op list"

text \<open>\<open>document.createElement("canvas")\<close> followed by the assignment of its size.\<close>

definition createCanvas :: "int \<Rightarrow> int \<Rightarrow> canvas" where
  "createCanvas w h =
     \<lparr>canvas_width = w, canvas_height = h,
      strokeStyle = ''#000000'', fillStyle = ''#000000'', lineWidth = 1,
      lineCap = ''butt'', lineJoin = ''miter'',
      globalCompositeOperation = SourceOver,
      currentSubpaths = [], painted = []\<rparr>"

definition beginPath :: "canvas \<Rightarrow> canvas" where
  "beginPath cv = cv\<lparr>currentSubpaths := []\<rparr>"

definition moveTo :: "Point \<Rightarrow> canvas \<Rightarrow> canvas" where
  "moveTo p cv = cv\<lparr>currentSubpaths := currentSubpaths cv @ [[p]]\<rparr>"

definition lineTo :: "Point \<Rightarrow> canvas \<Rightarrow> canvas" where
  "lineTo p cv =
     (if currentSubpaths cv = [] then cv\<lparr>currentSubpaths := [[p]]\<rparr>
      else cv\<lparr>currentSubpaths :=
                butlast (currentSubpaths cv) @ [last (currentSubpaths cv) @ [p]]\<rparr>)"

definition stroke :: "canvas \<Rightarrow> canvas" where
  "stroke cv =
     cv\<lparr>painted := painted cv @
            [StrokePath (globalCompositeOperation cv) (strokeStyle cv) (lineWidth cv)
               (lineCap cv) (lineJoin cv) (currentSubpaths cv)]\<rparr>"

definition clearRect :: "int \<Rightarrow> int \<Rightarrow> int \<Rightarrow> int \<Rightarrow> canvas \<Rightarrow> canvas" where
  "clearRect rx ry rw rh cv = cv\<lparr>painted := painted cv @ [ClearRect rx ry rw rh]\<rparr>"


subsection \<open>What the painting operations do to the pixels\<close>

text \<open>
  Which pixels a stroked path covers is decided by the browser's rasteriser, which is
  a parameter here: it is given the line width, cap, join and the subpaths. Every style
  the program assigns is an opaque colour (the palette, the value of a colour input and
  the literals \<open>#000000\<close> and \<open>#ffffff\<close>), so a covered pixel receives opaque paint;
  partial coverage at the edge of a line is not modelled.
\<close>

type_synonym rasteriser = "int \<Rightarrow> string \<Rightarrow> string \<Rightarrow> Point list list \<Rightarrow> pixel \<Rightarrow> bool"

fun compose :: "composite \<Rightarrow> string option \<Rightarrow> string option \<Rightarrow> string option" where
  "compose SourceOver (Some c) dst = Some c"
| "compose SourceOver None dst = dst"
| "compose DestinationOut (Some c) dst = None"
| "compose DestinationOut None dst = dst"

definition inRect :: "int \<Rightarrow> int \<Rightarrow> int \<Rightarrow> int \<Rightarrow> pixel \<Rightarrow> bool" where
  "inRect rx ry rw rh p = (rx \<le> fst p \<and> fst p < rx + rw \<and> ry \<le> snd p \<and> snd p < ry + rh)"

fun paint :: "rasteriser \<Rightarrow> image \<Rightarrow> draw_op \<Rightarrow> image" where
  "paint R img (ClearRect rx ry rw rh) =
     (\<lambda>p. if inRect rx ry rw rh p then None else img p)"
| "paint R img (FillRect m c rx ry rw rh) =
     (\<lambda>p. if inRect rx ry rw rh p then compose m (Some c) (img p) else img p)"
| "paint R img (StrokePath m c w cap join sub) =
     (\<lambda>p. if R w cap join sub p then compose m (Some c) (img p) else img p)"
| "paint R img (DrawImage m src dx dy) =
     (\<lambda>p. compose m (src (fst p - dx, snd p - dy)) (img p))"

definition pixelsOf :: "rasteriser \<Rightarrow> canvas \<Rightarrow> image" where
  "pixelsOf R cv =
     (\<lambda>p. if inRect 0 0 (canvas_width cv) (canvas_height cv) p
          then foldl (paint R) (\<lambda>_. None) (painted cv) p
          else None)"


section \<open>Rendering\<close>

text \<open>The loop \<open>for (let i = 1; i < path.points.length; i++) ctx.lineTo(...)\<close>.\<close>

function lineToFrom :: "nat \<Rightarrow> Point list \<Rightarrow> canvas \<Rightarrow> canvas" where
  "lineToFrom i pts cv =
     (if i < length pts then lineToFrom (Suc i) pts (lineTo (pts ! i) cv) else cv)"
  by pat_completeness auto
termination
  by (relation "measure (\<lambda>(i, pts, cv). length pts - i)") auto

declare lineToFrom.simps [simp del]

definition drawPath :: "canvas \<Rightarrow> DrawingPath \<Rightarrow> canvas" where
  "drawPath ctx path =
     (if length (points path) < 2 then ctx
      else
        let ctx = beginPath ctx;
            ctx = ctx\<lparr>strokeStyle := color path\<rparr>;
            ctx = ctx\<lparr>lineWidth := width path\<rparr>;
            ctx = ctx\<lparr>lineCap := ''round''\<rparr>;
            ctx = ctx\<lparr>lineJoin := ''round''\<rparr>;
            ctx = (if tool path = Eraser
                   then ctx\<lparr>globalCompositeOperation := DestinationOut\<rparr>
                   else ctx\<lparr>globalCompositeOperation := SourceOver\<rparr>);
            ctx = moveTo (points path ! 0) ctx;
            ctx = lineToFrom 1 (points path) ctx
        in stroke ctx)"

text \<open>The object literal \<open>currentDrawingPath\<close> that \<open>redrawCanvas\<close> builds.\<close>

definition currentDrawingPath :: "SketchApp \<Rightarrow> DrawingPath" where
  "currentDrawingPath s =
     \<lparr>points = currentPath s,
      color = (if currentTool s = Eraser then ''#000000'' else currentColor s),
      width = brushSize s,
      tool = currentTool s\<rparr>"

text \<open>
  \<open>canvasRef.current\<close> with its context is \<open>None\<close> when either is missing; the
  function then returns at once.
\<close>

definition redrawCanvas :: "SketchApp \<Rightarrow> canvas option \<Rightarrow> canvas option" where
  "redrawCanvas s canvasRef =
     (case canvasRef of
        None \<Rightarrow> None
      | Some canvas \<Rightarrow>
          let ctx = clearRect 0 0 (canvas_width canvas) (canvas_height canvas) canvas;
              ctx = foldl drawPath ctx (paths s)
          in if length (currentPath s) > 1
             then Some (drawPath ctx (currentDrawingPath s))
             else Some ctx)"

section \<open>Export\<close>


section \<open>The user interface as a state machine\<close>

text \<open>
  The events the JSX binds to a handler: the four mouse events of the canvas
  (\<open>onMouseUp\<close> and \<open>onMouseLeave\<close> both call \<open>stopDrawing\<close>), the two tool buttons,
  the palette buttons and the colour input, the two brush size buttons (which call
  \<open>adjustBrushSize\<close> with \<open>-1\<close> and \<open>1\<close>) and the undo, redo and clear buttons.
\<close>

datatype event =
    MouseDown Point
  | MouseMove Point
  | MouseUp
  | MouseLeave
  | ClickTool tool
  | PickColor string
  | ClickMinus
  | ClickPlus
  | ClickUndo
  | ClickRedo
  | ClickClear

fun handle :: "event \<Rightarrow> SketchApp \<Rightarrow> SketchApp" where
  "handle (MouseDown p) s = startDrawing p s"
| "handle (MouseMove p) s = draw p s"
| "handle MouseUp s = stopDrawing s"
| "handle MouseLeave s = stopDrawing s"
| "handle (ClickTool t) s = setCurrentTool t s"
| "handle (PickColor c) s = setCurrentColor c s"
| "handle ClickMinus s = adjustBrushSize (- 1) s"
| "handle ClickPlus s = adjustBrushSize 1 s"
| "handle ClickUndo s = undo s"
| "handle ClickRedo s = redo s"
| "handle ClickClear s = clearCanvas s"

definition run :: "event list \<Rightarrow> SketchApp \<Rightarrow> SketchApp" where
  "run es s = fold handle es s"

inductive reachable :: "SketchApp \<Rightarrow> bool" where
  reachable_init: "reachable initialState"
| reachable_step: "reachable s \<Longrightarrow> reachable (handle e s)"

text \<open>
  What a user does between two looks at the history: a whole capture (button down at a
  point, any number of moves, button up), a click on the clear button, or a change of
  the tool settings. The first two are the actions that change the drawing.
\<close>

datatype action =
    Commit Point "Point list"
  | Clear
  | SelectTool tool
  | SelectColor string
  | Thinner
  | Thicker

fun events_of :: "action \<Rightarrow> event list" where
  "events_of (Commit p qs) = MouseDown p # map MouseMove qs @ [MouseUp]"
| "events_of Clear = [ClickClear]"
| "events_of (SelectTool t) = [ClickTool t]"
| "events_of (SelectColor c) = [PickColor c]"
| "events_of Thinner = [ClickMinus]"
| "events_of Thicker = [ClickPlus]"

fun mutating :: "action \<Rightarrow> bool" where
  "mutating (Commit p qs) = True"
| "mutating Clear = True"
| "mutating a = False"

definition perform :: "action list \<Rightarrow> SketchApp \<Rightarrow> SketchApp" where
  "perform as s = run (concat (map events_of as)) s"

text \<open>The events that only change the tool settings.\<close>

fun is_setting :: "event \<Rightarrow> bool" where
  "is_setting (ClickTool t) = True"
| "is_setting (PickColor c) = True"
| "is_setting ClickMinus = True"
| "is_setting ClickPlus = True"
| "is_setting e = False"

text \<open>
  What can happen between button down and button up while the pointer stays on the
  canvas: moves and changes of the settings, in any order. \<open>moved\<close> lists the points
  of the moves among some events, in their order.
\<close>

fun is_move :: "event \<Rightarrow> bool" where
  "is_move (MouseMove q) = True"
| "is_move e = False"

fun moved :: "event list \<Rightarrow> Point list" where
  "moved [] = []"
| "moved (MouseMove q # es) = q # moved es"
| "moved (e # es) = moved es"

text \<open>
  The painting operation a path amounts to when it is drawn: none with fewer than two
  points, else one stroke of the polyline through its points.
\<close>

definition strokeOps :: "DrawingPath \<Rightarrow> draw_op list" where
  "strokeOps path =
     (if length (points path) < 2 then []
      else [StrokePath (if tool path = Eraser then DestinationOut else SourceOver)
              (color path) (width path) ''round'' ''round'' [points path]])"

section \<open>Example sessions\<close>

definition pointA :: Point where
  "pointA = \<lparr>point_x = 0, point_y = 0\<rparr>"

definition pointB :: Point where
  "pointB = \<lparr>point_x = 10, point_y = 10\<rparr>"

text \<open>A red pen stroke of width 5 from \<open>(0,0)\<close> to \<open>(10,10)\<close>.\<close>

definition penSession :: SketchApp where
  "penSession =
     run [PickColor ''#FF0000'', ClickPlus, ClickPlus,
          MouseDown pointA, MouseMove pointB, MouseUp] initialState"

text \<open>The same, followed by an eraser stroke over it and one undo.\<close>

definition undoneSession :: SketchApp where
  "undoneSession =
     run [ClickTool Eraser, MouseDown pointA, MouseMove pointB, MouseUp, ClickUndo]
       penSession"

definition pointC :: Point where
  "pointC = \<lparr>point_x = 20, point_y = 20\<rparr>"

text \<open>
  After the pen stroke, the eraser is selected, an eraser stroke from \<open>(0,0)\<close> to
  \<open>(20,20)\<close> is committed and a second capture has reached two points.
\<close>

definition erasingSession :: SketchApp where
  "erasingSession =
     run [ClickTool Eraser, MouseDown pointA, MouseMove pointC, MouseUp,
          MouseDown pointB, MouseMove pointC] penSession"

definition penStroke :: DrawingPath where
  "penStroke = \<lparr>points = [pointA, pointB], color = ''#FF0000'', width = 5, tool = Pen\<rparr>"

definition eraserStroke :: DrawingPath where
  "eraserStroke = \<lparr>points = [pointA, pointC], color = ''#000000'', width = 5, tool = Eraser\<rparr>"

text \<open>A rasteriser for the examples: a path covers the pixels at its vertices.\<close>

definition exampleRaster :: rasteriser where
  "exampleRaster w cap join sub p =
     (\<lparr>point_x = of_int (fst p), point_y = of_int (snd p)\<rparr> \<in> set (concat sub))"

text \<open>The live canvas of the page (800 by 600) showing the pen and the eraser stroke.\<close>

definition liveCanvas :: canvas where
  "liveCanvas = drawPath (drawPath (createCanvas 800 600) penStroke) eraserStroke"

text \<open>The property of a stroke that the history is shown to maintain.\<close>

definition eraserBlack :: "DrawingPath \<Rightarrow> bool" where
  "eraserBlack path = (tool path = Eraser \<longrightarrow> color path = ''#000000'')"

definition historyBlack :: "SketchApp \<Rightarrow> bool" where
  "historyBlack s =
     ((\<forall>path \<in> set (paths s). eraserBlack path) \<and>
      (\<forall>d \<in> set (undoStack s). \<forall>path \<in> set d. eraserBlack path) \<and>
      (\<forall>d \<in> set (redoStack s). \<forall>path \<in> set d. eraserBlack path))"

section \<open>Facts about the handlers\<close>

lemma undo_empty: "undoStack s = [] \<Longrightarrow> undo s = s"
  by (simp add: undo_def)

lemma undo_snoc:
  "undoStack s = us @ [u] \<Longrightarrow>
   undo s = s\<lparr>redoStack := redoStack s @ [paths s], paths := u, undoStack := us\<rparr>"
  by (simp add: undo_def Let_def)

lemma redo_empty: "redoStack s = [] \<Longrightarrow> redo s = s"
  by (simp add: redo_def)

lemma redo_snoc:
  "redoStack s = rs @ [r] \<Longrightarrow>
   redo s = s\<lparr>undoStack := undoStack s @ [paths s], paths := r, redoStack := rs\<rparr>"
  by (simp add: redo_def Let_def)

lemma fold_draw:
  "isDrawing s \<Longrightarrow> fold draw qs s = s\<lparr>currentPath := currentPath s @ qs\<rparr>"
  by (induction qs arbitrary: s) (simp_all add: draw_def)

lemma run_append: "run (es @ fs) s = run fs (run es s)"
  by (simp add: run_def)

lemma run_Cons: "run (e # es) s = run es (handle e s)"
  by (simp add: run_def)

lemma run_Nil: "run [] s = s"
  by (simp add: run_def)

lemma run_moves: "run (map MouseMove qs) s = fold draw qs s"
  by (induction qs arbitrary: s) (simp_all add: run_def)

lemma reachable_run: "reachable s \<Longrightarrow> reachable (run es s)"
  by (induction es arbitrary: s) (simp_all add: run_Nil run_Cons reachable_step)

lemma capture_events:
  "run (MouseDown p # map MouseMove qs) s = s\<lparr>isDrawing := True, currentPath := p # qs\<rparr>"
  by (simp add: run_Cons run_moves fold_draw startDrawing_def)

lemma commit_events:
  "run (events_of (Commit p qs)) s =
     s\<lparr>isDrawing := False, currentPath := [],
       undoStack := undoStack s @ [paths s], redoStack := [],
       paths := paths s @
         [\<lparr>points = p # qs,
           color = (if currentTool s = Eraser then ''#000000'' else currentColor s),
           width = brushSize s, tool = currentTool s\<rparr>]\<rparr>"
proof -
  have "run (events_of (Commit p qs)) s = stopDrawing (run (MouseDown p # map MouseMove qs) s)"
    using run_append [of "MouseDown p # map MouseMove qs" "[MouseUp]" s]
    by (simp add: run_Cons run_Nil)
  then show ?thesis
    by (simp add: capture_events stopDrawing_def Let_def)
qed

lemma perform_Nil: "perform [] s = s"
  by (simp add: perform_def run_Nil)

lemma perform_Cons: "perform (a # as) s = perform as (run (events_of a) s)"
  by (simp add: perform_def run_append)

text \<open>
  The timeline of a state is its undo stack followed by its current drawing. An action
  that changes the drawing extends the timeline by one, the others leave it alone; in
  both cases its first element stays.
\<close>

lemma action_history:
  assumes "redoStack s = []"
  shows "redoStack (run (events_of a) s) = [] \<and>
         length (undoStack (run (events_of a) s)) =
           length (undoStack s) + (if mutating a then 1 else 0) \<and>
         hd (undoStack (run (events_of a) s) @ [paths (run (events_of a) s)]) =
           hd (undoStack s @ [paths s])"
proof (cases a)
  case (Commit p qs)
  then show ?thesis
    by (cases "undoStack s") (simp_all add: commit_events del: events_of.simps)
next
  case Clear
  then show ?thesis
    by (cases "undoStack s") (simp_all add: run_Cons run_Nil clearCanvas_def)
qed (use assms in \<open>simp_all add: run_Cons run_Nil setCurrentTool_def setCurrentColor_def
      adjustBrushSize_def\<close>)

lemma perform_history:
  "redoStack s = [] \<Longrightarrow>
   redoStack (perform as s) = [] \<and>
   length (undoStack (perform as s)) = length (undoStack s) + length (filter mutating as) \<and>
   hd (undoStack (perform as s) @ [paths (perform as s)]) = hd (undoStack s @ [paths s])"
proof (induction as arbitrary: s)
  case Nil
  then show ?case by (simp add: perform_Nil)
next
  case (Cons a as)
  have step: "redoStack (run (events_of a) s) = []"
    "length (undoStack (run (events_of a) s)) =
       length (undoStack s) + (if mutating a then 1 else 0)"
    "hd (undoStack (run (events_of a) s) @ [paths (run (events_of a) s)]) =
       hd (undoStack s @ [paths s])"
    using action_history [OF Cons.prems, of a] by simp_all
  from Cons.IH [OF step(1)] show ?case
    by (simp add: perform_Cons step(2,3))
qed

lemma undo_all:
  "undoStack s = us \<Longrightarrow>
   (undo ^^ length us) s =
     s\<lparr>paths := hd (us @ [paths s]), undoStack := [],
       redoStack := redoStack s @ rev (tl (us @ [paths s]))\<rparr>"
proof (induction us arbitrary: s rule: rev_induct)
  case Nil
  then show ?case by simp
next
  case (snoc u us)
  define s' where "s' = s\<lparr>redoStack := redoStack s @ [paths s], paths := u, undoStack := us\<rparr>"
  have u: "undo s = s'"
    using snoc.prems by (simp add: undo_snoc s'_def)
  have "(undo ^^ length (us @ [u])) s = (undo ^^ length us) (undo s)"
    by (simp add: funpow_swap1)
  also have "\<dots> = s'\<lparr>paths := hd (us @ [paths s']), undoStack := [],
                     redoStack := redoStack s' @ rev (tl (us @ [paths s']))\<rparr>"
    unfolding u by (rule snoc.IH) (simp add: s'_def)
  also have "\<dots> = s\<lparr>paths := hd ((us @ [u]) @ [paths s]), undoStack := [],
                    redoStack := redoStack s @ rev (tl ((us @ [u]) @ [paths s]))\<rparr>"
    by (cases us) (simp_all add: s'_def)
  finally show ?case .
qed

lemma redo_all:
  "redoStack s = rs \<Longrightarrow>
   (redo ^^ length rs) s =
     s\<lparr>paths := hd (rs @ [paths s]), redoStack := [],
       undoStack := undoStack s @ rev (tl (rs @ [paths s]))\<rparr>"
proof (induction rs arbitrary: s rule: rev_induct)
  case Nil
  then show ?case by simp
next
  case (snoc r rs)
  define s' where "s' = s\<lparr>undoStack := undoStack s @ [paths s], paths := r, redoStack := rs\<rparr>"
  have r: "redo s = s'"
    using snoc.prems by (simp add: redo_snoc s'_def)
  have "(redo ^^ length (rs @ [r])) s = (redo ^^ length rs) (redo s)"
    by (simp add: funpow_swap1)
  also have "\<dots> = s'\<lparr>paths := hd (rs @ [paths s']), redoStack := [],
                     undoStack := undoStack s' @ rev (tl (rs @ [paths s']))\<rparr>"
    unfolding r by (rule snoc.IH) (simp add: s'_def)
  also have "\<dots> = s\<lparr>paths := hd ((rs @ [r]) @ [paths s]), redoStack := [],
                    undoStack := undoStack s @ rev (tl ((rs @ [r]) @ [paths s]))\<rparr>"
    by (cases rs) (simp_all add: s'_def)
  finally show ?case .
qed

lemma undo_all_redo_all:
  assumes "redoStack s = []"
  shows "(redo ^^ length (undoStack s)) ((undo ^^ length (undoStack s)) s) = s"
proof -
  define us where "us = undoStack s"
  define t where
    "t = s\<lparr>paths := hd (us @ [paths s]), undoStack := [],
           redoStack := redoStack s @ rev (tl (us @ [paths s]))\<rparr>"
  have t: "(undo ^^ length us) s = t"
    unfolding t_def by (rule undo_all) (simp add: us_def)
  have rt: "redoStack t = rev (tl (us @ [paths s]))"
    by (simp add: t_def assms)
  have len: "length (rev (tl (us @ [paths s]))) = length us"
    by simp
  have "(redo ^^ length (rev (tl (us @ [paths s])))) t =
          t\<lparr>paths := hd (rev (tl (us @ [paths s])) @ [paths t]), redoStack := [],
            undoStack := undoStack t @ rev (tl (rev (tl (us @ [paths s])) @ [paths t]))\<rparr>"
    using rt by (rule redo_all)
  then have "(redo ^^ length us) t =
          t\<lparr>paths := hd (rev (tl (us @ [paths s])) @ [paths t]), redoStack := [],
            undoStack := undoStack t @ rev (tl (rev (tl (us @ [paths s])) @ [paths t]))\<rparr>"
    by (simp only: len)
  also have "\<dots> = s"
  proof -
    have pt: "paths t = hd (us @ [paths s])"
      by (simp add: t_def)
    have "rev (tl (us @ [paths s])) @ [hd (us @ [paths s])] = rev (us @ [paths s])"
      by (cases us) simp_all
    then have x: "rev (tl (us @ [paths s])) @ [paths t] = paths s # rev us"
      by (simp add: pt)
    show ?thesis
      unfolding x by (simp add: t_def us_def assms)
  qed
  finally show ?thesis
    by (simp add: t us_def [symmetric])
qed

lemma setting_frame:
  "is_setting e \<Longrightarrow>
   isDrawing (handle e s) = isDrawing s \<and> currentPath (handle e s) = currentPath s \<and>
   paths (handle e s) = paths s \<and> undoStack (handle e s) = undoStack s \<and>
   redoStack (handle e s) = redoStack s"
  by (cases e) (simp_all add: setCurrentTool_def setCurrentColor_def adjustBrushSize_def)

lemma settings_frame:
  "\<forall>e \<in> set es. is_setting e \<Longrightarrow>
   isDrawing (run es s) = isDrawing s \<and> currentPath (run es s) = currentPath s \<and>
   paths (run es s) = paths s \<and> undoStack (run es s) = undoStack s \<and>
   redoStack (run es s) = redoStack s"
  by (induction es arbitrary: s) (simp_all add: run_Nil run_Cons setting_frame)

lemma stopDrawing_commits:
  "isDrawing s \<Longrightarrow> currentPath s \<noteq> [] \<Longrightarrow>
   paths (stopDrawing s) =
     paths s @
       [\<lparr>points = currentPath s,
         color = (if currentTool s = Eraser then ''#000000'' else currentColor s),
         width = brushSize s, tool = currentTool s\<rparr>]"
  by (simp add: stopDrawing_def Let_def)

lemma capture_step:
  assumes "isDrawing s" and "is_setting e \<or> is_move e"
  shows "isDrawing (handle e s) \<and>
         currentPath (handle e s) = currentPath s @ moved [e] \<and>
         paths (handle e s) = paths s"
  using assms
  by (cases e)
    (simp_all add: draw_def setCurrentTool_def setCurrentColor_def adjustBrushSize_def)

lemma moved_Cons: "moved (e # es) = moved [e] @ moved es"
  by (cases e) simp_all

lemma capture_frame:
  "isDrawing s \<Longrightarrow> \<forall>e \<in> set es. is_setting e \<or> is_move e \<Longrightarrow>
   isDrawing (run es s) \<and>
   currentPath (run es s) = currentPath s @ moved es \<and>
   paths (run es s) = paths s"
proof (induction es arbitrary: s)
  case Nil
  then show ?case by (simp add: run_Nil)
next
  case (Cons e es)
  have e: "is_setting e \<or> is_move e" and es: "\<forall>x \<in> set es. is_setting x \<or> is_move x"
    using Cons.prems(2) by simp_all
  have step: "isDrawing (handle e s)"
    "currentPath (handle e s) = currentPath s @ moved [e]"
    "paths (handle e s) = paths s"
    using capture_step [OF Cons.prems(1) e] by simp_all
  from Cons.IH [OF step(1) es] show ?case
    by (simp add: run_Cons step(2,3) moved_Cons [of e es])
qed

lemma historyBlack_init: "historyBlack initialState"
  by (simp add: historyBlack_def initialState_def)

lemma historyBlack_undo: "historyBlack s \<Longrightarrow> historyBlack (undo s)"
proof (cases "undoStack s" rule: rev_cases)
  case Nil
  assume "historyBlack s"
  with Nil show ?thesis by (simp add: undo_empty)
next
  case (snoc us u)
  assume "historyBlack s"
  with snoc show ?thesis
    by (simp add: undo_snoc [OF snoc] historyBlack_def)
qed

lemma historyBlack_redo: "historyBlack s \<Longrightarrow> historyBlack (redo s)"
proof (cases "redoStack s" rule: rev_cases)
  case Nil
  assume "historyBlack s"
  with Nil show ?thesis by (simp add: redo_empty)
next
  case (snoc rs r)
  assume "historyBlack s"
  with snoc show ?thesis
    by (simp add: redo_snoc [OF snoc] historyBlack_def)
qed

lemma historyBlack_stopDrawing: "historyBlack s \<Longrightarrow> historyBlack (stopDrawing s)"
  by (simp add: stopDrawing_def Let_def historyBlack_def eraserBlack_def)

lemma historyBlack_handle: "historyBlack s \<Longrightarrow> historyBlack (handle e s)"
proof (cases e)
  case ClickUndo
  assume "historyBlack s"
  with ClickUndo show ?thesis by (simp add: historyBlack_undo)
next
  case ClickRedo
  assume "historyBlack s"
  with ClickRedo show ?thesis by (simp add: historyBlack_redo)
next
  case MouseUp
  assume "historyBlack s"
  with MouseUp show ?thesis by (simp add: historyBlack_stopDrawing)
next
  case MouseLeave
  assume "historyBlack s"
  with MouseLeave show ?thesis by (simp add: historyBlack_stopDrawing)
qed (simp_all add: historyBlack_def startDrawing_def draw_def setCurrentTool_def
      setCurrentColor_def adjustBrushSize_def clearCanvas_def)

lemma reachable_historyBlack: "reachable s \<Longrightarrow> historyBlack s"
  by (induction rule: reachable.induct) (simp_all add: historyBlack_init historyBlack_handle)

lemma brushSize_handle:
  "1 \<le> brushSize s \<and> brushSize s \<le> 50 \<Longrightarrow>
   1 \<le> brushSize (handle e s) \<and> brushSize (handle e s) \<le> 50"
  by (cases e)
    (auto simp add: startDrawing_def draw_def stopDrawing_def Let_def setCurrentTool_def
      setCurrentColor_def adjustBrushSize_def clearCanvas_def undo_def redo_def)

lemma reachable_brushSize: "reachable s \<Longrightarrow> 1 \<le> brushSize s \<and> brushSize s \<le> 50"
  by (induction rule: reachable.induct) (simp_all add: initialState_def brushSize_handle)

section \<open>Facts about the canvas\<close>

lemma lineTo_last:
  "currentSubpaths cv = sp @ [cur] \<Longrightarrow>
   lineTo p cv = cv\<lparr>currentSubpaths := sp @ [cur @ [p]]\<rparr>"
  by (simp add: lineTo_def)

lemma lineToFrom_subpaths:
  "currentSubpaths cv = sp @ [cur] \<Longrightarrow>
   lineToFrom i pts cv = cv\<lparr>currentSubpaths := sp @ [cur @ drop i pts]\<rparr>"
proof (induction i pts cv arbitrary: cur rule: lineToFrom.induct)
  case (1 i pts cv)
  show ?case
  proof (cases "i < length pts")
    case True
    have step: "lineTo (pts ! i) cv = cv\<lparr>currentSubpaths := sp @ [cur @ [pts ! i]]\<rparr>"
      using "1.prems" by (rule lineTo_last)
    have "lineToFrom (Suc i) pts (lineTo (pts ! i) cv) =
          (lineTo (pts ! i) cv)\<lparr>currentSubpaths := sp @ [(cur @ [pts ! i]) @ drop (Suc i) pts]\<rparr>"
      using True by (intro "1.IH") (simp_all add: step)
    moreover have "drop i pts = pts ! i # drop (Suc i) pts"
      using True by (simp add: Cons_nth_drop_Suc)
    ultimately show ?thesis
      using True by (subst lineToFrom.simps) (simp add: step)
  next
    case False
    then show ?thesis
      using "1.prems" by (subst lineToFrom.simps) simp
  qed
qed

lemma drawPath_short: "length (points path) < 2 \<Longrightarrow> drawPath cv path = cv"
  by (simp add: drawPath_def)

lemma drawPath_long:
  assumes "2 \<le> length (points path)"
  shows "drawPath cv path =
           cv\<lparr>strokeStyle := color path, lineWidth := width path,
              lineCap := ''round'', lineJoin := ''round'',
              globalCompositeOperation :=
                (if tool path = Eraser then DestinationOut else SourceOver),
              currentSubpaths := [points path],
              painted := painted cv @ strokeOps path\<rparr>"
proof -
  obtain p0 rest where pts: "points path = p0 # rest"
    using assms by (cases "points path") auto
  define c0 where
    "c0 = cv\<lparr>strokeStyle := color path, lineWidth := width path,
              lineCap := ''round'', lineJoin := ''round'',
              globalCompositeOperation :=
                (if tool path = Eraser then DestinationOut else SourceOver),
              currentSubpaths := [[p0]]\<rparr>"
  have sub: "currentSubpaths c0 = [] @ [[p0]]"
    by (simp add: c0_def)
  have "lineToFrom 1 (points path) c0 = c0\<lparr>currentSubpaths := [] @ [[p0] @ drop 1 (points path)]\<rparr>"
    using sub by (rule lineToFrom_subpaths)
  then have loop: "lineToFrom 1 (points path) c0 = c0\<lparr>currentSubpaths := [points path]\<rparr>"
    by (simp add: pts)
  have ops: "strokeOps path =
               [StrokePath (if tool path = Eraser then DestinationOut else SourceOver)
                  (color path) (width path) ''round'' ''round'' [points path]]"
    using assms by (simp add: strokeOps_def)
  have ne: "rest \<noteq> []"
    using assms by (auto simp: pts)
  have "drawPath cv path = stroke (lineToFrom 1 (points path) c0)"
    using ne by (simp add: drawPath_def Let_def beginPath_def moveTo_def c0_def pts)
  also have "\<dots> = stroke (c0\<lparr>currentSubpaths := [points path]\<rparr>)"
    by (simp only: loop)
  finally show ?thesis
    by (simp add: stroke_def ops c0_def)
qed

lemma drawPath_painted: "painted (drawPath cv path) = painted cv @ strokeOps path"
proof (cases "length (points path) < 2")
  case True
  then show ?thesis by (simp add: drawPath_short strokeOps_def)
next
  case False
  then have "2 \<le> length (points path)" by simp
  then show ?thesis by (simp add: drawPath_long)
qed

lemma drawPath_size:
  "canvas_width (drawPath cv path) = canvas_width cv \<and>
   canvas_height (drawPath cv path) = canvas_height cv"
proof (cases "length (points path) < 2")
  case True
  then show ?thesis by (simp add: drawPath_short)
next
  case False
  then have "2 \<le> length (points path)" by simp
  then show ?thesis by (simp add: drawPath_long)
qed

lemma foldl_drawPath_painted:
  "painted (foldl drawPath cv ps) = painted cv @ concat (map strokeOps ps)"
  by (induction ps arbitrary: cv) (simp_all add: drawPath_painted)

lemma foldl_drawPath_size:
  "canvas_width (foldl drawPath cv ps) = canvas_width cv \<and>
   canvas_height (foldl drawPath cv ps) = canvas_height cv"
  by (induction ps arbitrary: cv) (simp_all add: drawPath_size)

lemma redrawCanvas_painted:
  "\<exists>cv'. redrawCanvas s (Some cv) = Some cv' \<and>
     canvas_width cv' = canvas_width cv \<and> canvas_height cv' = canvas_height cv \<and>
     painted cv' =
       painted cv @ ClearRect 0 0 (canvas_width cv) (canvas_height cv) #
       concat (map strokeOps (paths s)) @
       (if 2 \<le> length (currentPath s) then strokeOps (currentDrawingPath s) else [])"
proof (cases "2 \<le> length (currentPath s)")
  case True
  then have "1 < length (currentPath s)" by simp
  then show ?thesis
    using True
    by (simp add: redrawCanvas_def Let_def drawPath_painted drawPath_size
        foldl_drawPath_painted foldl_drawPath_size clearRect_def)
next
  case False
  then have "\<not> 1 < length (currentPath s)" by simp
  then show ?thesis
    using False
    by (simp add: redrawCanvas_def Let_def foldl_drawPath_painted foldl_drawPath_size
        clearRect_def)
qed

lemma strokeOps_current:
  "2 \<le> length (currentPath s) \<Longrightarrow>
   strokeOps (currentDrawingPath s) =
     [StrokePath (if currentTool s = Eraser then DestinationOut else SourceOver)
        (if currentTool s = Eraser then ''#000000'' else currentColor s)
        (brushSize s) ''round'' ''round'' [currentPath s]]"
  by (simp add: strokeOps_def currentDrawingPath_def)

lemma pixelsOf_snoc:
  "painted cv = ops @ [op] \<Longrightarrow>
   pixelsOf R cv p =
     (if inRect 0 0 (canvas_width cv) (canvas_height cv) p
      then paint R (foldl (paint R) (\<lambda>_. None) ops) op p
      else None)"
  by (simp add: pixelsOf_def)

lemma pixelsOf_stroked:
  assumes "painted cv = ops @ [StrokePath m c w cap join sub]"
    and "inRect 0 0 (canvas_width cv) (canvas_height cv) p"
    and "R w cap join sub p"
  shows "pixelsOf R cv p = (case m of SourceOver \<Rightarrow> Some c | DestinationOut \<Rightarrow> None)"
  using assms(2,3) by (cases m) (simp_all add: pixelsOf_snoc [OF assms(1)])

lemma drawPath_pixel:
  assumes "2 \<le> length (points path)"
    and "inRect 0 0 (canvas_width cv) (canvas_height cv) p"
    and "R (width path) ''round'' ''round'' [points path] p"
  shows "pixelsOf R (drawPath cv path) p =
           (if tool path = Eraser then None else Some (color path))"
proof -
  have ops: "painted (drawPath cv path) =
               painted cv @
                 [StrokePath (if tool path = Eraser then DestinationOut else SourceOver)
                    (color path) (width path) ''round'' ''round'' [points path]]"
    using assms(1) by (simp add: drawPath_painted strokeOps_def)
  have "inRect 0 0 (canvas_width (drawPath cv path)) (canvas_height (drawPath cv path)) p"
    using assms(2) by (simp add: drawPath_size)
  from pixelsOf_stroked [of _ _ _ _ _ _ _ _ _ R, OF ops this assms(3)] show ?thesis
    by simp
qed

section \<open>Example sessions, evaluated\<close>

lemma penSession_eq:
  "penSession =
     \<lparr>isDrawing = False, currentPath = [],
      paths = [\<lparr>points = [pointA, pointB], color = ''#FF0000'', width = 5, tool = Pen\<rparr>],
      undoStack = [[]], redoStack = [],
      currentColor = ''#FF0000'', brushSize = 5, currentTool = Pen\<rparr>"
  by (simp add: penSession_def run_def initialState_def setCurrentColor_def
      adjustBrushSize_def startDrawing_def draw_def stopDrawing_def)

lemma undoneSession_eq:
  "undoneSession =
     \<lparr>isDrawing = False, currentPath = [],
      paths = [\<lparr>points = [pointA, pointB], color = ''#FF0000'', width = 5, tool = Pen\<rparr>],
      undoStack = [[]],
      redoStack =
        [[\<lparr>points = [pointA, pointB], color = ''#FF0000'', width = 5, tool = Pen\<rparr>,
          \<lparr>points = [pointA, pointB], color = ''#000000'', width = 5, tool = Eraser\<rparr>]],
      currentColor = ''#FF0000'', brushSize = 5, currentTool = Eraser\<rparr>"
  by (simp add: undoneSession_def penSession_eq run_def setCurrentTool_def
      startDrawing_def draw_def stopDrawing_def undo_def)

section \<open>The history store\<close>

text \<open>
  C6. \<open>undo\<close> with an empty undo stack and \<open>redo\<close> with an empty redo stack return the
  state unchanged. Otherwise \<open>undo\<close> makes the top of the undo stack the current
  drawing, removes it from the undo stack and pushes the displaced drawing onto the
  redo stack, and \<open>redo\<close> does the same with the two stacks exchanged.
\<close>

theorem undo_redo_stack_discipline:
  "(undoStack s = [] \<longrightarrow> undo s = s) \<and>
   (redoStack s = [] \<longrightarrow> redo s = s) \<and>
   (undoStack s \<noteq> [] \<longrightarrow>
      undo s = s\<lparr>redoStack := redoStack s @ [paths s],
                 paths := last (undoStack s),
                 undoStack := butlast (undoStack s)\<rparr>) \<and>
   (redoStack s \<noteq> [] \<longrightarrow>
      redo s = s\<lparr>undoStack := undoStack s @ [paths s],
                 paths := last (redoStack s),
                 redoStack := butlast (redoStack s)\<rparr>)"
  by (simp add: undo_def redo_def Let_def last_conv_nth butlast_conv_take)

theorem undo_redo_stack_discipline_witness:
  "undo initialState = initialState \<and> redo initialState = initialState \<and>
   paths (undo undoneSession) = [] \<and>
   undoStack (undo undoneSession) = [] \<and>
   length (redoStack (undo undoneSession)) = 2 \<and>
   length (paths (redo undoneSession)) = 2 \<and>
   redoStack (redo undoneSession) = [] \<and>
   length (undoStack (redo undoneSession)) = 2"
proof -
  have e: "undoStack initialState = []" "redoStack initialState = []"
    by (simp_all add: initialState_def)
  have n: "undoStack undoneSession \<noteq> []" "redoStack undoneSession \<noteq> []"
    by (simp_all add: undoneSession_eq)
  from e undo_redo_stack_discipline [of initialState]
  have "undo initialState = initialState \<and> redo initialState = initialState"
    by simp
  moreover from n undo_redo_stack_discipline [of undoneSession]
  have "undo undoneSession =
          undoneSession\<lparr>redoStack := redoStack undoneSession @ [paths undoneSession],
                         paths := last (undoStack undoneSession),
                         undoStack := butlast (undoStack undoneSession)\<rparr> \<and>
        redo undoneSession =
          undoneSession\<lparr>undoStack := undoStack undoneSession @ [paths undoneSession],
                         paths := last (redoStack undoneSession),
                         redoStack := butlast (redoStack undoneSession)\<rparr>"
    by simp
  ultimately show ?thesis
    by (simp add: undoneSession_eq)
qed

text \<open>
  C8. \<open>clearCanvas\<close> pushes the current drawing onto the undo stack, empties the redo
  stack and makes the empty drawing current, whatever the current drawing is, the
  empty one included. An \<open>undo\<close> right after it brings back the drawing and the undo
  stack that were there before; after clearing an empty drawing, that is the empty
  drawing again.
\<close>

theorem clearCanvas_recorded_and_undoable:
  "undoStack (clearCanvas s) = undoStack s @ [paths s] \<and>
   redoStack (clearCanvas s) = [] \<and>
   paths (clearCanvas s) = [] \<and>
   paths (undo (clearCanvas s)) = paths s \<and>
   undoStack (undo (clearCanvas s)) = undoStack s \<and>
   (paths s = [] \<longrightarrow>
      length (undoStack (clearCanvas s)) = Suc (length (undoStack s)) \<and>
      paths (undo (clearCanvas s)) = [])"
  by (simp add: clearCanvas_def undo_def Let_def)

theorem clearCanvas_recorded_and_undoable_witness:
  "undoStack (clearCanvas initialState) = [[]] \<and>
   paths (undo (clearCanvas initialState)) = [] \<and>
   undoStack (undo (clearCanvas initialState)) = []"
proof -
  have e: "paths initialState = []" "undoStack initialState = []"
    by (simp_all add: initialState_def)
  from e clearCanvas_recorded_and_undoable [of initialState]
  show ?thesis by simp
qed

text \<open>
  C5. When the button is released over a capture of at least two points, the stroke is
  committed and the redo stack is emptied, so a \<open>redo\<close> after it changes nothing. This
  holds in every state, in particular after an \<open>undo\<close>.
\<close>

theorem commit_invalidates_redo:
  "isDrawing s \<Longrightarrow> 2 \<le> length (currentPath s) \<Longrightarrow>
   length (paths (stopDrawing s)) = Suc (length (paths s)) \<and>
   redoStack (stopDrawing s) = [] \<and>
   redo (stopDrawing s) = stopDrawing s"
  by (auto simp add: stopDrawing_def redo_def Let_def)

theorem commit_invalidates_redo_witness:
  "redoStack undoneSession \<noteq> [] \<and>
   redoStack (run [MouseDown pointA, MouseMove pointB, MouseUp] undoneSession) = [] \<and>
   redo (run [MouseDown pointA, MouseMove pointB, MouseUp] undoneSession) =
     run [MouseDown pointA, MouseMove pointB, MouseUp] undoneSession"
proof -
  define s where "s = run [MouseDown pointA, MouseMove pointB] undoneSession"
  have d: "isDrawing s" and l: "2 \<le> length (currentPath s)"
    by (simp_all add: s_def run_def startDrawing_def draw_def)
  have r: "run [MouseDown pointA, MouseMove pointB, MouseUp] undoneSession = stopDrawing s"
    by (simp add: s_def run_def)
  have n: "redoStack undoneSession \<noteq> []"
    by (simp add: undoneSession_eq)
  from commit_invalidates_redo [OF d l] n show ?thesis
    unfolding r by simp
qed

text \<open>
  C2. From the initial state, after any sequence of actions of which \<open>N\<close> change the
  drawing (captures and clears, with changes of the tool settings anywhere between
  them), \<open>N\<close> undos make the empty drawing current, and \<open>N\<close> redos after them bring back
  the whole state, the final drawing included.
\<close>

theorem history_round_trip:
  "paths ((undo ^^ length (filter mutating as)) (perform as initialState)) = [] \<and>
   (redo ^^ length (filter mutating as))
      ((undo ^^ length (filter mutating as)) (perform as initialState)) =
     perform as initialState"
proof -
  define s where "s = perform as initialState"
  have init: "redoStack initialState = []"
    by (simp add: initialState_def)
  have h: "redoStack s = []" "length (undoStack s) = length (filter mutating as)"
    "hd (undoStack s @ [paths s]) = []"
    using perform_history [OF init, of as] by (simp_all add: s_def initialState_def)
  have "(undo ^^ length (undoStack s)) s =
          s\<lparr>paths := hd (undoStack s @ [paths s]), undoStack := [],
            redoStack := redoStack s @ rev (tl (undoStack s @ [paths s]))\<rparr>"
    by (rule undo_all) simp
  then have "paths ((undo ^^ length (undoStack s)) s) = []"
    by (simp add: h(3))
  moreover have "(redo ^^ length (undoStack s)) ((undo ^^ length (undoStack s)) s) = s"
    using h(1) by (rule undo_all_redo_all)
  ultimately have "paths ((undo ^^ length (filter mutating as)) s) = [] \<and>
      (redo ^^ length (filter mutating as)) ((undo ^^ length (filter mutating as)) s) = s"
    by (simp only: h(2))
  then show ?thesis
    by (simp only: s_def)
qed

theorem history_round_trip_witness:
  "paths ((undo ^^ 3)
            (perform [Commit pointA [pointB], SelectTool Eraser, Commit pointA [pointC], Clear]
               initialState)) = [] \<and>
   (redo ^^ 3)
      ((undo ^^ 3)
         (perform [Commit pointA [pointB], SelectTool Eraser, Commit pointA [pointC], Clear]
            initialState)) =
     perform [Commit pointA [pointB], SelectTool Eraser, Commit pointA [pointC], Clear]
       initialState"
proof -
  have n: "length (filter mutating
             [Commit pointA [pointB], SelectTool Eraser, Commit pointA [pointC], Clear]) = 3"
    by simp
  from history_round_trip
         [of "[Commit pointA [pointB], SelectTool Eraser, Commit pointA [pointC], Clear]"]
  show ?thesis
    by (simp only: n)
qed

section \<open>Stroke capture\<close>

text \<open>
  C3. A capture of a single point (button down, then button up with no move between)
  is committed by \<open>stopDrawing\<close>, whose guard only rejects an empty capture: the
  one-point stroke becomes part of the drawing, the undo stack grows and a non-empty
  redo stack is emptied, although \<open>drawPath\<close> paints nothing for such a stroke.
\<close>

theorem single_point_capture_is_committed:
  "run [MouseDown pointA, MouseUp] initialState =
     initialState\<lparr>paths := [\<lparr>points = [pointA], color = ''#000000'', width = 3, tool = Pen\<rparr>],
                  undoStack := [[]]\<rparr> \<and>
   redoStack undoneSession \<noteq> [] \<and>
   redoStack (run [MouseDown pointA, MouseUp] undoneSession) = [] \<and>
   length (undoStack (run [MouseDown pointA, MouseUp] undoneSession)) =
     Suc (length (undoStack undoneSession)) \<and>
   drawPath (createCanvas 800 600)
      (last (paths (run [MouseDown pointA, MouseUp] initialState))) =
     createCanvas 800 600"
proof -
  have a: "run [MouseDown pointA, MouseUp] initialState =
     initialState\<lparr>paths := [\<lparr>points = [pointA], color = ''#000000'', width = 3, tool = Pen\<rparr>],
                  undoStack := [[]]\<rparr>"
    by (simp add: run_def startDrawing_def stopDrawing_def initialState_def)
  have b: "redoStack undoneSession \<noteq> []"
    by (simp add: undoneSession_eq)
  have c: "redoStack (run [MouseDown pointA, MouseUp] undoneSession) = []"
    "length (undoStack (run [MouseDown pointA, MouseUp] undoneSession)) =
       Suc (length (undoStack undoneSession))"
    by (simp_all add: run_def startDrawing_def stopDrawing_def)
  have d: "drawPath (createCanvas 800 600)
             (last (paths (run [MouseDown pointA, MouseUp] initialState))) =
           createCanvas 800 600"
    by (simp add: a drawPath_short)
  from a b c d show ?thesis by simp
qed

text \<open>
  C4, as the specification states it, fails: with the settings changed between the first move
  and the release, the committed stroke has the colour, width and tool of the release,
  which differ from those at button down.
\<close>

theorem settings_snapshot_counterexample:
  "color (last (paths (run [MouseDown pointA, MouseMove pointB,
                            PickColor ''#0000FF'', ClickMinus, MouseUp] penSession))) \<noteq>
     currentColor (run [MouseDown pointA] penSession) \<and>
   currentColor (run [MouseDown pointA] penSession) = ''#FF0000'' \<and>
   brushSize (run [MouseDown pointA] penSession) = 5 \<and>
   currentTool (run [MouseDown pointA] penSession) = Pen \<and>
   last (paths (run [MouseDown pointA, MouseMove pointB,
                     PickColor ''#0000FF'', ClickMinus, MouseUp] penSession)) =
     \<lparr>points = [pointA, pointB], color = ''#0000FF'', width = 4, tool = Pen\<rparr> \<and>
   last (paths (run [MouseDown pointA, MouseMove pointB,
                     ClickTool Eraser, MouseUp] penSession)) =
     \<lparr>points = [pointA, pointB], color = ''#000000'', width = 5, tool = Eraser\<rparr>"
  by (simp add: penSession_eq run_def startDrawing_def draw_def stopDrawing_def
      setCurrentColor_def setCurrentTool_def adjustBrushSize_def)

text \<open>
  C4, amended. \<open>startDrawing\<close> records no settings. Whatever moves and changes of the
  settings follow the button down, in any order, the stroke committed at the release
  has the first point and the points of the moves, the tool and the width that are
  selected at the release, and the colour selected at the release for the pen, black
  for the eraser.
\<close>

theorem committed_stroke_has_release_settings:
  "\<forall>e \<in> set es. is_setting e \<or> is_move e \<Longrightarrow>
   paths (handle MouseUp (run (MouseDown p # es) s)) =
     paths s @
       [\<lparr>points = p # moved es,
         color = (if currentTool (run (MouseDown p # es) s) = Eraser
                  then ''#000000''
                  else currentColor (run (MouseDown p # es) s)),
         width = brushSize (run (MouseDown p # es) s),
         tool = currentTool (run (MouseDown p # es) s)\<rparr>]"
proof -
  assume es: "\<forall>e \<in> set es. is_setting e \<or> is_move e"
  define s0 where "s0 = startDrawing p s"
  define s1 where "s1 = run (MouseDown p # es) s"
  have s1: "s1 = run es s0"
    by (simp add: s0_def s1_def run_Cons)
  have s0: "isDrawing s0" "currentPath s0 = [p]" "paths s0 = paths s"
    by (simp_all add: s0_def startDrawing_def)
  have f: "isDrawing s1" "currentPath s1 = p # moved es" "paths s1 = paths s"
    using capture_frame [OF s0(1) es] s0 by (simp_all add: s1)
  have "paths (stopDrawing s1) =
          paths s1 @
            [\<lparr>points = currentPath s1,
              color = (if currentTool s1 = Eraser then ''#000000'' else currentColor s1),
              width = brushSize s1, tool = currentTool s1\<rparr>]"
    using f by (intro stopDrawing_commits) simp_all
  then show ?thesis
    by (simp add: f s1_def [symmetric])
qed

theorem committed_stroke_has_release_settings_witness:
  "currentColor (run [MouseDown pointA] penSession) = ''#FF0000'' \<and>
   brushSize (run [MouseDown pointA] penSession) = 5 \<and>
   paths (handle MouseUp
            (run (MouseDown pointA #
                    [MouseMove pointB, PickColor ''#0000FF'', MouseMove pointC, ClickMinus])
               penSession)) =
     [\<lparr>points = [pointA, pointB], color = ''#FF0000'', width = 5, tool = Pen\<rparr>,
      \<lparr>points = [pointA, pointB, pointC], color = ''#0000FF'', width = 4, tool = Pen\<rparr>]"
proof -
  have es: "\<forall>e \<in> set [MouseMove pointB, PickColor ''#0000FF'', MouseMove pointC, ClickMinus].
              is_setting e \<or> is_move e"
    by simp
  have d: "currentColor (run [MouseDown pointA] penSession) = ''#FF0000''"
    "brushSize (run [MouseDown pointA] penSession) = 5"
    by (simp_all add: penSession_eq run_def startDrawing_def)
  have v: "currentColor (run (MouseDown pointA #
                [MouseMove pointB, PickColor ''#0000FF'', MouseMove pointC, ClickMinus])
                penSession) = ''#0000FF''"
    "brushSize (run (MouseDown pointA #
                [MouseMove pointB, PickColor ''#0000FF'', MouseMove pointC, ClickMinus])
                penSession) = 4"
    "currentTool (run (MouseDown pointA #
                [MouseMove pointB, PickColor ''#0000FF'', MouseMove pointC, ClickMinus])
                penSession) = Pen"
    by (simp_all add: penSession_eq run_def startDrawing_def draw_def
        setCurrentColor_def adjustBrushSize_def)
  have p: "paths penSession =
             [\<lparr>points = [pointA, pointB], color = ''#FF0000'', width = 5, tool = Pen\<rparr>]"
    by (simp add: penSession_eq)
  have m: "moved [MouseMove pointB, PickColor ''#0000FF'', MouseMove pointC, ClickMinus] =
             [pointB, pointC]"
    by simp
  from committed_stroke_has_release_settings [OF es, of pointA penSession]
  have "paths (handle MouseUp
            (run (MouseDown pointA #
                    [MouseMove pointB, PickColor ''#0000FF'', MouseMove pointC, ClickMinus])
               penSession)) =
     [\<lparr>points = [pointA, pointB], color = ''#FF0000'', width = 5, tool = Pen\<rparr>,
      \<lparr>points = [pointA, pointB, pointC], color = ''#0000FF'', width = 4, tool = Pen\<rparr>]"
    by (simp only: v p m) simp
  with d show ?thesis
    by simp
qed

section \<open>The compositor\<close>

lemma erasingSession_eq:
  "erasingSession =
     \<lparr>isDrawing = True, currentPath = [pointB, pointC],
      paths = [penStroke, eraserStroke],
      undoStack = [[], [penStroke]], redoStack = [],
      currentColor = ''#FF0000'', brushSize = 5, currentTool = Eraser\<rparr>"
  by (simp add: erasingSession_def penSession_eq run_def setCurrentTool_def
      startDrawing_def draw_def stopDrawing_def penStroke_def eraserStroke_def)

lemma reachable_erasingSession: "reachable erasingSession"
  unfolding erasingSession_def penSession_def
  by (intro reachable_run reachable_init)

lemma example_strokes:
  "2 \<le> length (points penStroke)" "tool penStroke = Pen"
  "2 \<le> length (points eraserStroke)" "tool eraserStroke = Eraser"
  by (simp_all add: penStroke_def eraserStroke_def)

lemma example_cover:
  "exampleRaster (width penStroke) ''round'' ''round'' [points penStroke] (0, 0)"
  "exampleRaster (width penStroke) ''round'' ''round'' [points penStroke] (10, 10)"
  "exampleRaster (width eraserStroke) ''round'' ''round'' [points eraserStroke] (0, 0)"
  "\<not> exampleRaster (width eraserStroke) ''round'' ''round'' [points eraserStroke] (10, 10)"
  by (simp_all add: exampleRaster_def penStroke_def eraserStroke_def
      pointA_def pointB_def pointC_def)

text \<open>
  C1. When \<open>drawPath\<close> draws a stroke (one of at least two points), the compositing
  mode of the stroke it paints is destination-out for the tool \<open>Eraser\<close> and
  source-over for the tool \<open>Pen\<close>. Hence a pixel of the canvas that the stroke covers
  is transparent after an eraser stroke, whatever was there, and has the colour of the
  stroke after a pen stroke; in particular an eraser stroke drawn after a pen stroke
  leaves the pixels it covers transparent.
\<close>

theorem drawPath_compositing:
  "(2 \<le> length (points path) \<and> tool path = Eraser \<longrightarrow>
      globalCompositeOperation (drawPath cv path) = DestinationOut \<and>
      painted (drawPath cv path) =
        painted cv @ [StrokePath DestinationOut (color path) (width path)
                        ''round'' ''round'' [points path]]) \<and>
   (2 \<le> length (points path) \<and> tool path = Pen \<longrightarrow>
      globalCompositeOperation (drawPath cv path) = SourceOver \<and>
      painted (drawPath cv path) =
        painted cv @ [StrokePath SourceOver (color path) (width path)
                        ''round'' ''round'' [points path]]) \<and>
   (2 \<le> length (points path) \<and>
    inRect 0 0 (canvas_width cv) (canvas_height cv) px \<and>
    R (width path) ''round'' ''round'' [points path] px \<longrightarrow>
      pixelsOf R (drawPath cv path) px =
        (if tool path = Eraser then None else Some (color path))) \<and>
   (2 \<le> length (points pen) \<and> tool pen = Pen \<and>
    2 \<le> length (points er) \<and> tool er = Eraser \<and>
    inRect 0 0 (canvas_width cv) (canvas_height cv) px \<and>
    R (width pen) ''round'' ''round'' [points pen] px \<and>
    R (width er) ''round'' ''round'' [points er] px \<longrightarrow>
      pixelsOf R (drawPath cv pen) px = Some (color pen) \<and>
      pixelsOf R (drawPath (drawPath cv pen) er) px = None)"
proof -
  have mode: "2 \<le> length (points path) \<Longrightarrow>
      globalCompositeOperation (drawPath cv path) =
        (if tool path = Eraser then DestinationOut else SourceOver) \<and>
      painted (drawPath cv path) =
        painted cv @ [StrokePath (if tool path = Eraser then DestinationOut else SourceOver)
                        (color path) (width path) ''round'' ''round'' [points path]]"
    by (simp add: drawPath_long strokeOps_def)
  have pix: "\<And>c q. 2 \<le> length (points q) \<Longrightarrow>
      inRect 0 0 (canvas_width c) (canvas_height c) px \<Longrightarrow>
      R (width q) ''round'' ''round'' [points q] px \<Longrightarrow>
      pixelsOf R (drawPath c q) px = (if tool q = Eraser then None else Some (color q))"
    by (rule drawPath_pixel)
  have over: "2 \<le> length (points pen) \<Longrightarrow> tool pen = Pen \<Longrightarrow>
      2 \<le> length (points er) \<Longrightarrow> tool er = Eraser \<Longrightarrow>
      inRect 0 0 (canvas_width cv) (canvas_height cv) px \<Longrightarrow>
      R (width pen) ''round'' ''round'' [points pen] px \<Longrightarrow>
      R (width er) ''round'' ''round'' [points er] px \<Longrightarrow>
      pixelsOf R (drawPath cv pen) px = Some (color pen) \<and>
      pixelsOf R (drawPath (drawPath cv pen) er) px = None"
    using pix [of pen cv] pix [of er "drawPath cv pen"] by (simp add: drawPath_size)
  from mode pix [of path cv] over show ?thesis
    by simp
qed

theorem drawPath_compositing_witness:
  "painted liveCanvas =
     [StrokePath SourceOver ''#FF0000'' 5 ''round'' ''round'' [[pointA, pointB]],
      StrokePath DestinationOut ''#000000'' 5 ''round'' ''round'' [[pointA, pointC]]] \<and>
   pixelsOf exampleRaster (drawPath (createCanvas 800 600) penStroke) (0, 0) = Some ''#FF0000'' \<and>
   pixelsOf exampleRaster liveCanvas (0, 0) = None"
proof -
  define c0 where "c0 = createCanvas 800 600"
  define c1 where "c1 = drawPath c0 penStroke"
  have box: "inRect 0 0 (canvas_width c0) (canvas_height c0) (0, 0)"
    by (simp add: c0_def createCanvas_def inRect_def)
  have "painted c1 =
          painted c0 @ [StrokePath SourceOver (color penStroke) (width penStroke)
                          ''round'' ''round'' [points penStroke]]"
    using drawPath_compositing [of penStroke c0] example_strokes(1,2)
    by (simp add: c1_def)
  moreover have "painted (drawPath c1 eraserStroke) =
          painted c1 @ [StrokePath DestinationOut (color eraserStroke) (width eraserStroke)
                          ''round'' ''round'' [points eraserStroke]]"
    using drawPath_compositing [of eraserStroke c1] example_strokes(3,4)
    by simp
  ultimately have ops: "painted liveCanvas =
     [StrokePath SourceOver ''#FF0000'' 5 ''round'' ''round'' [[pointA, pointB]],
      StrokePath DestinationOut ''#000000'' 5 ''round'' ''round'' [[pointA, pointC]]]"
    by (simp add: liveCanvas_def c1_def c0_def createCanvas_def penStroke_def eraserStroke_def)
  have "pixelsOf exampleRaster (drawPath c0 penStroke) (0, 0) = Some (color penStroke) \<and>
        pixelsOf exampleRaster (drawPath (drawPath c0 penStroke) eraserStroke) (0, 0) = None"
    using drawPath_compositing [of _ _ "(0, 0)" exampleRaster penStroke eraserStroke, where cv = c0]
      example_strokes example_cover(1,3) box
    by blast
  then show ?thesis
    using ops by (simp add: liveCanvas_def c0_def penStroke_def)
qed

text \<open>
  C7. On a canvas, \<open>redrawCanvas\<close> adds to what the canvas has received, in this order:
  one \<open>clearRect\<close> of the whole canvas (after which every pixel is transparent), then
  what \<open>drawPath\<close> paints for each committed stroke in the order of the drawing (nothing for a stroke of fewer than two points),
  and last, when the capture in progress has at least two points, one stroke through
  its points with the tool, width and colour selected at that moment (black for the
  eraser). A pixel that this last stroke covers shows it: transparent for the eraser,
  the selected colour for the pen.
\<close>

theorem redrawCanvas_pipeline:
  "(\<exists>cv'. redrawCanvas s (Some cv) = Some cv' \<and>
      painted cv' =
        painted cv @ ClearRect 0 0 (canvas_width cv) (canvas_height cv) #
        concat (map strokeOps (paths s)) @
        (if 2 \<le> length (currentPath s)
         then [StrokePath (if currentTool s = Eraser then DestinationOut else SourceOver)
                 (if currentTool s = Eraser then ''#000000'' else currentColor s)
                 (brushSize s) ''round'' ''round'' [currentPath s]]
         else []) \<and>
      (2 \<le> length (currentPath s) \<and>
       inRect 0 0 (canvas_width cv) (canvas_height cv) px \<and>
       R (brushSize s) ''round'' ''round'' [currentPath s] px \<longrightarrow>
         pixelsOf R cv' px = (if currentTool s = Eraser then None else Some (currentColor s)))) \<and>
   pixelsOf R (clearRect 0 0 (canvas_width cv) (canvas_height cv) cv) px = None \<and>
   painted (drawPath cv path) = painted cv @ strokeOps path \<and>
   (length (points path) < 2 \<longrightarrow> strokeOps path = [] \<and> drawPath cv path = cv)"
proof -
  obtain cv' where r: "redrawCanvas s (Some cv) = Some cv'"
    and size: "canvas_width cv' = canvas_width cv" "canvas_height cv' = canvas_height cv"
    and ops: "painted cv' =
       painted cv @ ClearRect 0 0 (canvas_width cv) (canvas_height cv) #
       concat (map strokeOps (paths s)) @
       (if 2 \<le> length (currentPath s) then strokeOps (currentDrawingPath s) else [])"
    using redrawCanvas_painted [of s cv] by blast
  have ops': "painted cv' =
        painted cv @ ClearRect 0 0 (canvas_width cv) (canvas_height cv) #
        concat (map strokeOps (paths s)) @
        (if 2 \<le> length (currentPath s)
         then [StrokePath (if currentTool s = Eraser then DestinationOut else SourceOver)
                 (if currentTool s = Eraser then ''#000000'' else currentColor s)
                 (brushSize s) ''round'' ''round'' [currentPath s]]
         else [])"
    using ops by (simp add: strokeOps_current)
  have top: "pixelsOf R cv' px = (if currentTool s = Eraser then None else Some (currentColor s))"
    if len: "2 \<le> length (currentPath s)"
      and box: "inRect 0 0 (canvas_width cv) (canvas_height cv) px"
      and cov: "R (brushSize s) ''round'' ''round'' [currentPath s] px"
  proof -
    have last: "painted cv' =
        (painted cv @ ClearRect 0 0 (canvas_width cv) (canvas_height cv) #
         concat (map strokeOps (paths s))) @
        [StrokePath (if currentTool s = Eraser then DestinationOut else SourceOver)
           (if currentTool s = Eraser then ''#000000'' else currentColor s)
           (brushSize s) ''round'' ''round'' [currentPath s]]"
      using ops' len by simp
    have box': "inRect 0 0 (canvas_width cv') (canvas_height cv') px"
      using box by (simp add: size)
    from pixelsOf_stroked [of _ _ _ _ _ _ _ _ _ R, OF last box' cov] show ?thesis
      by simp
  qed
  have short: "length (points path) < 2 \<longrightarrow> strokeOps path = [] \<and> drawPath cv path = cv"
    by (simp add: strokeOps_def drawPath_short)
  have clear: "pixelsOf R (clearRect 0 0 (canvas_width cv) (canvas_height cv) cv) px = None"
    by (simp add: pixelsOf_def clearRect_def)
  from r ops' top short clear show ?thesis
    by (simp add: drawPath_painted)
qed

theorem redrawCanvas_pipeline_witness:
  "(\<exists>cv'. redrawCanvas erasingSession (Some liveCanvas) = Some cv' \<and>
      painted cv' =
        [StrokePath SourceOver ''#FF0000'' 5 ''round'' ''round'' [[pointA, pointB]],
         StrokePath DestinationOut ''#000000'' 5 ''round'' ''round'' [[pointA, pointC]],
         ClearRect 0 0 800 600,
         StrokePath SourceOver ''#FF0000'' 5 ''round'' ''round'' [[pointA, pointB]],
         StrokePath DestinationOut ''#000000'' 5 ''round'' ''round'' [[pointA, pointC]],
         StrokePath DestinationOut ''#000000'' 5 ''round'' ''round'' [[pointB, pointC]]] \<and>
      pixelsOf exampleRaster cv' (10, 10) = None) \<and>
   drawPath liveCanvas \<lparr>points = [pointA], color = ''#FF0000'', width = 5, tool = Pen\<rparr> =
     liveCanvas"
proof -
  have old: "painted liveCanvas =
     [StrokePath SourceOver ''#FF0000'' 5 ''round'' ''round'' [[pointA, pointB]],
      StrokePath DestinationOut ''#000000'' 5 ''round'' ''round'' [[pointA, pointC]]]"
    by (simp add: liveCanvas_def drawPath_painted strokeOps_def penStroke_def
        eraserStroke_def createCanvas_def)
  have size: "canvas_width liveCanvas = 800" "canvas_height liveCanvas = 600"
    by (simp_all add: liveCanvas_def drawPath_size createCanvas_def)
  have len: "2 \<le> length (currentPath erasingSession)"
    by (simp add: erasingSession_eq)
  have box: "inRect 0 0 (canvas_width liveCanvas) (canvas_height liveCanvas) (10, 10)"
    by (simp add: size inRect_def)
  have cov: "exampleRaster (brushSize erasingSession) ''round'' ''round''
               [currentPath erasingSession] (10, 10)"
    by (simp add: erasingSession_eq exampleRaster_def pointB_def)
  have short: "length (points \<lparr>points = [pointA], color = ''#FF0000'', width = 5, tool = Pen\<rparr>) < 2"
    by simp
  from redrawCanvas_pipeline [of erasingSession liveCanvas "(10, 10)" exampleRaster
      "\<lparr>points = [pointA], color = ''#FF0000'', width = 5, tool = Pen\<rparr>"]
    len box cov short
  show ?thesis
    by (simp add: old size erasingSession_eq strokeOps_def penStroke_def eraserStroke_def)
qed

section \<open>Export and the colour of eraser strokes\<close>



text \<open>
  C10. In every state the component can reach, each eraser stroke of the drawing and
  of every snapshot on the two stacks has the colour \<open>#000000\<close>. A stroke committed
  with the eraser gets that colour whatever colour is selected, one committed with
  the pen gets the selected colour. While the eraser is selected, the stroke in
  progress that \<open>redrawCanvas\<close> hands to \<open>drawPath\<close> has the colour \<open>#000000\<close> too.
\<close>

theorem eraser_strokes_are_black:
  "reachable s \<Longrightarrow>
   (\<forall>path \<in> set (paths s). tool path = Eraser \<longrightarrow> color path = ''#000000'') \<and>
   (\<forall>d \<in> set (undoStack s @ redoStack s).
      \<forall>path \<in> set d. tool path = Eraser \<longrightarrow> color path = ''#000000'') \<and>
   (isDrawing s \<and> currentPath s \<noteq> [] \<longrightarrow>
      color (last (paths (stopDrawing s))) =
        (if currentTool s = Eraser then ''#000000'' else currentColor s)) \<and>
   (currentTool s = Eraser \<longrightarrow> color (currentDrawingPath s) = ''#000000'') \<and>
   (currentTool s = Eraser \<and> 2 \<le> length (currentPath s) \<longrightarrow>
      (\<exists>cv'. redrawCanvas s (Some cv) = Some cv' \<and>
         last (painted cv') =
           StrokePath DestinationOut ''#000000'' (brushSize s) ''round'' ''round''
             [currentPath s]))"
proof -
  assume "reachable s"
  then have h: "historyBlack s"
    by (rule reachable_historyBlack)
  have a: "\<forall>path \<in> set (paths s). tool path = Eraser \<longrightarrow> color path = ''#000000''"
    using h by (simp add: historyBlack_def eraserBlack_def)
  have b: "\<forall>d \<in> set (undoStack s @ redoStack s).
      \<forall>path \<in> set d. tool path = Eraser \<longrightarrow> color path = ''#000000''"
    using h by (auto simp add: historyBlack_def eraserBlack_def)
  have c: "isDrawing s \<and> currentPath s \<noteq> [] \<longrightarrow>
      color (last (paths (stopDrawing s))) =
        (if currentTool s = Eraser then ''#000000'' else currentColor s)"
    by (simp add: stopDrawing_commits)
  have d: "currentTool s = Eraser \<longrightarrow> color (currentDrawingPath s) = ''#000000''"
    by (simp add: currentDrawingPath_def)
  have e: "\<exists>cv'. redrawCanvas s (Some cv) = Some cv' \<and>
         last (painted cv') =
           StrokePath DestinationOut ''#000000'' (brushSize s) ''round'' ''round''
             [currentPath s]"
    if "currentTool s = Eraser" "2 \<le> length (currentPath s)"
    using redrawCanvas_painted [of s cv] that by (auto simp add: strokeOps_current)
  from a b c d e show ?thesis
    by blast
qed

theorem eraser_strokes_are_black_witness:
  "currentColor erasingSession = ''#FF0000'' \<and>
   tool (paths erasingSession ! 1) = Eraser \<and>
   color (paths erasingSession ! 1) = ''#000000'' \<and>
   color (last (paths (stopDrawing erasingSession))) = ''#000000'' \<and>
   (\<exists>cv'. redrawCanvas erasingSession (Some liveCanvas) = Some cv' \<and>
      last (painted cv') =
        StrokePath DestinationOut ''#000000'' 5 ''round'' ''round'' [[pointB, pointC]])"
proof -
  have v: "currentColor erasingSession = ''#FF0000''" "currentTool erasingSession = Eraser"
    "isDrawing erasingSession" "currentPath erasingSession = [pointB, pointC]"
    "brushSize erasingSession = 5" "paths erasingSession = [penStroke, eraserStroke]"
    by (simp_all add: erasingSession_eq)
  have m: "paths erasingSession ! 1 \<in> set (paths erasingSession)"
    by (simp add: v)
  have t: "tool (paths erasingSession ! 1) = Eraser"
    by (simp add: v eraserStroke_def)
  from eraser_strokes_are_black [OF reachable_erasingSession, of liveCanvas] m t v
  show ?thesis
    by simp
qed

end
